theory Spec2Isabelle
  imports Main
begin

section \<open>The command-line front end of tc-play (main.c)\<close>

text \<open>
  The only source file of the repository is \<^verbatim>\<open>main.c\<close>: the signal handler
  \<^verbatim>\<open>sig_handler\<close>, \<^verbatim>\<open>usage\<close> and \<^verbatim>\<open>main\<close>. Everything
  \<^verbatim>\<open>main\<close> calls is declared in \<^verbatim>\<open>tc-play.h\<close> and defined elsewhere; those
  constants and functions are parameters of the model (the record \<open>env\<close>).

  A C pointer \<^verbatim>\<open>const char *\<close> is a \<open>string option\<close>, \<open>None\<close> being
  \<^verbatim>\<open>NULL\<close>. The \<^verbatim>\<open>int\<close> flags keep the values the code gives them
  (0 and 1) and are tested against 0 as C does.
\<close>

subsection \<open>The calls into the volume engine\<close>

text \<open>
  One constructor per engine function, its arguments in the order in which
  \<^verbatim>\<open>main\<close> passes them:
  \<^verbatim>\<open>create_volume(dev, contain_hidden, keyfiles, nkeyfiles, h_keyfiles, n_hkeyfiles,
      prf, cipher_chain, NULL, NULL, 0, 1 /* interactive */)\<close>,
  \<^verbatim>\<open>info_volume(dev, sflag, sys_dev, protect_hidden, keyfiles, nkeyfiles, h_keyfiles,
      n_hkeyfiles, NULL, NULL, 1 /* interactive */, DEFAULT_RETRIES)\<close> and
  \<^verbatim>\<open>map_volume(map_name, dev, sflag, sys_dev, protect_hidden, keyfiles, nkeyfiles,
      h_keyfiles, n_hkeyfiles, NULL, NULL, 1 /* interactive */, DEFAULT_RETRIES)\<close>.
  An array argument is the whole array of \<^verbatim>\<open>MAX_KEYFILES\<close> cells.
\<close>

datatype ('p, 'c) engine_call =
    Create_volume "string option" int "string option list" nat "string option list" nat
      "'p option" "'c option" "string option" "string option" int int
  | Info_volume "string option" int "string option" int "string option list" nat
      "string option list" nat "string option" "string option" int int
  | Map_volume "string option" "string option" int "string option" int "string option list" nat
      "string option list" nat "string option" "string option" int int

subsection \<open>What tc-play.h and the C library provide\<close>

text \<open>
  \<open>check_prf_algo E optarg\<close> is \<^verbatim>\<open>check_prf_algo(optarg, 0)\<close> and
  \<open>check_cipher_chain E optarg\<close> is \<^verbatim>\<open>check_cipher_chain(optarg, 0)\<close>: the
  registry entry, or \<open>None\<close> for \<^verbatim>\<open>NULL\<close>. \<open>engine E c\<close> is the
  \<^verbatim>\<open>int\<close> that the engine returns for the call \<open>c\<close>.
\<close>

record ('p, 'c) env =
  MAX_KEYFILES :: nat
  DEFAULT_RETRIES :: int
  SIGUSR1 :: int
  SIGINFO :: int
  check_prf_algo :: "string option \<Rightarrow> 'p option"
  check_cipher_chain :: "string option \<Rightarrow> 'c option"
  engine :: "('p, 'c) engine_call \<Rightarrow> int"

subsection \<open>The signal handler\<close>

text \<open>
  \<^verbatim>\<open>if ((sig == SIGUSR1 || sig == SIGINFO) && (summary_fn != NULL)) summary_fn();\<close>
  The global \<^verbatim>\<open>summary_fn\<close> is a function pointer, \<open>None\<close> when
  \<^verbatim>\<open>NULL\<close>. The handler's effect is the list of the functions it calls, in order.
\<close>

definition sig_handler :: "('p, 'c) env \<Rightarrow> 'f option \<Rightarrow> int \<Rightarrow> 'f list" where
  "sig_handler E summary_fn sig =
     (if (sig = SIGUSR1 E \<or> sig = SIGINFO E) \<and> summary_fn \<noteq> None
      then [the summary_fn] else [])"

text \<open>
  The signals for which \<^verbatim>\<open>main\<close> installs the handler:
  \<^verbatim>\<open>signal(SIGUSR1, sig_handler); signal(SIGINFO, sig_handler);\<close>
\<close>

definition installed_signals :: "('p, 'c) env \<Rightarrow> int list" where
  "installed_signals E = [SIGUSR1 E, SIGINFO E]"

subsection \<open>The local variables of main\<close>

text \<open>
  \<open>nkeyfiles\<close> and \<open>n_hkeyfiles\<close> start at 0 and are only incremented, one
  step after indexing an array with them, so they are natural numbers here. The variable
  \<^verbatim>\<open>prf\<close> is the field \<open>prf_algo\<close> (its C type is
  \<^verbatim>\<open>struct pbkdf_prf_algo *\<close>).
\<close>

record ('p, 'c) vars =
  dev :: "string option"
  sys_dev :: "string option"
  map_name :: "string option"
  keyfiles :: "string option list"
  h_keyfiles :: "string option list"
  nkeyfiles :: nat
  n_hkeyfiles :: nat
  sflag :: int
  info_vol :: int
  map_vol :: int
  protect_hidden :: int
  create_vol :: int
  contain_hidden :: int
  prf_algo :: "'p option"
  cipher_chain :: "'c option"

text \<open>
  The two arrays are declared with \<^verbatim>\<open>MAX_KEYFILES\<close> cells and not initialised;
  a cell that was never written is shown as \<open>None\<close> and no statement below reads one.
\<close>

definition init_vars :: "('p, 'c) env \<Rightarrow> ('p, 'c) vars" where
  "init_vars E =
     \<lparr>dev = None, sys_dev = None, map_name = None,
      keyfiles = replicate (MAX_KEYFILES E) None,
      h_keyfiles = replicate (MAX_KEYFILES E) None,
      nkeyfiles = 0, n_hkeyfiles = 0,
      sflag = 0, info_vol = 0, map_vol = 0, protect_hidden = 0,
      create_vol = 0, contain_hidden = 0,
      prf_algo = None, cipher_chain = None\<rparr>"

subsection \<open>How a run of main ends\<close>

text \<open>
  \<open>Usage\<close>: \<^verbatim>\<open>usage()\<close> printed the help text and called \<^verbatim>\<open>exit(1)\<close>.
  \<open>Exit n\<close>: \<^verbatim>\<open>exit(n)\<close> was called in the option loop.
  \<open>Return n\<close>: \<^verbatim>\<open>main\<close> returned \<open>n\<close>.
  \<open>Undefined_behaviour\<close>: the run left defined C (a store outside an array, a
  \<^verbatim>\<open>strcmp\<close> on \<^verbatim>\<open>NULL\<close>, the return of the unassigned \<^verbatim>\<open>error\<close>).
\<close>

datatype ending = Usage | Exit int | Return int | Undefined_behaviour

record ('p, 'c) outcome =
  calls :: "('p, 'c) engine_call list"
  status :: ending

subsection \<open>The command line and getopt_long\<close>

text \<open>
  The option string that \<^verbatim>\<open>main\<close> passes to \<^verbatim>\<open>getopt_long\<close> and its table
  \<^verbatim>\<open>longopts\<close> (name, \<^verbatim>\<open>has_arg\<close>, \<^verbatim>\<open>val\<close>; the \<^verbatim>\<open>flag\<close> of every
  entry is \<^verbatim>\<open>NULL\<close>, so \<^verbatim>\<open>getopt_long\<close> returns \<^verbatim>\<open>val\<close>).
\<close>

datatype has_arg = no_argument | required_argument

definition optstring :: string where
  "optstring = ''a:b:cd:efgh:ik:m:s:v''"

definition longopts :: "(string \<times> has_arg \<times> char) list" where
  "longopts =
     [(''create'', no_argument, CHR ''c''),
      (''cipher'', required_argument, CHR ''b''),
      (''hidden'', no_argument, CHR ''g''),
      (''pbkdf-prf'', required_argument, CHR ''a''),
      (''info'', no_argument, CHR ''i''),
      (''map'', required_argument, CHR ''m''),
      (''keyfile'', required_argument, CHR ''k''),
      (''keyfile-hidden'', required_argument, CHR ''f''),
      (''protect-hidden'', no_argument, CHR ''e''),
      (''device'', required_argument, CHR ''d''),
      (''system-encryption'', required_argument, CHR ''s''),
      (''version'', no_argument, CHR ''v''),
      (''help'', no_argument, CHR ''h'')]"

text \<open>
  \<^verbatim>\<open>getopt_long\<close> belongs to the C library; what follows is its manual page
  getopt_long(3), in the default mode (\<^verbatim>\<open>POSIXLY_CORRECT\<close> not set), as far as
  \<^verbatim>\<open>main\<close> depends on it.

  A letter of the option string takes an argument when a colon follows it; a letter that
  is not in the string is not an option.
\<close>

fun short_option :: "string \<Rightarrow> char \<Rightarrow> has_arg option" where
  "short_option [] c = None"
| "short_option (x # xs) c =
     (if c = CHR '':'' then None
      else if x = c then
        (case xs of
           [] \<Rightarrow> Some no_argument
         | y # ys \<Rightarrow> if y = CHR '':'' then Some required_argument else Some no_argument)
      else short_option xs c)"

text \<open>
  A long option is the entry of the table with that very name or, without one, the only
  entry that the name abbreviates.
\<close>

definition long_option :: "(string \<times> has_arg \<times> char) list \<Rightarrow> string \<Rightarrow> (has_arg \<times> char) option" where
  "long_option table nm =
     (case filter (\<lambda>e. fst e = nm) table of
        e # es \<Rightarrow> Some (snd e)
      | [] \<Rightarrow>
          (case filter (\<lambda>e. take (length nm) (fst e) = nm) table of
             [e] \<Rightarrow> Some (snd e)
           | _ \<Rightarrow> None))"

text \<open>
  The results of the successive calls of \<^verbatim>\<open>getopt_long\<close>, each the pair of the
  value returned and \<^verbatim>\<open>optarg\<close>, up to the call that returns -1.
  \<^verbatim>\<open>optarg\<close> is \<^verbatim>\<open>NULL\<close> for an option without argument. The argument of a
  letter is the rest of its element or, when that is empty, the next element; the argument
  of a long option follows \<^verbatim>\<open>=\<close> or is the next element. An unknown or ambiguous
  option, a missing argument and an argument given to a long option that takes none are
  reported as \<^verbatim>\<open>'?'\<close>. Elements that are not options are passed over, and
  \<^verbatim>\<open>--\<close> ends the options.
\<close>

fun getopt_elements :: "string list \<Rightarrow> (char \<times> string option) list"
  and getopt_cluster :: "string \<Rightarrow> string list \<Rightarrow> (char \<times> string option) list" where
  "getopt_elements [] = []"
| "getopt_elements (arg # rest) =
     (if arg = ''--'' then []
      else if take 2 arg = ''--'' then
        (let nm = takeWhile (\<lambda>c. c \<noteq> CHR ''='') (drop 2 arg);
             val = (case dropWhile (\<lambda>c. c \<noteq> CHR ''='') (drop 2 arg) of
                      [] \<Rightarrow> None | eq # v \<Rightarrow> Some v)
         in case long_option longopts nm of
              None \<Rightarrow> (CHR ''?'', None) # getopt_elements rest
            | Some (required_argument, ch) \<Rightarrow>
                (case val of
                   Some v \<Rightarrow> (ch, Some v) # getopt_elements rest
                 | None \<Rightarrow>
                     (case rest of
                        [] \<Rightarrow> [(CHR ''?'', None)]
                      | next_arg # rest' \<Rightarrow> (ch, Some next_arg) # getopt_elements rest'))
            | Some (no_argument, ch) \<Rightarrow>
                (case val of
                   Some v \<Rightarrow> (CHR ''?'', None) # getopt_elements rest
                 | None \<Rightarrow> (ch, None) # getopt_elements rest))
      else if take 1 arg = ''-'' \<and> arg \<noteq> ''-'' then getopt_cluster (drop 1 arg) rest
      else getopt_elements rest)"
| "getopt_cluster [] rest = getopt_elements rest"
| "getopt_cluster (c # cs) rest =
     (case short_option optstring c of
        None \<Rightarrow> (CHR ''?'', None) # getopt_cluster cs rest
      | Some no_argument \<Rightarrow> (c, None) # getopt_cluster cs rest
      | Some required_argument \<Rightarrow>
          (if cs \<noteq> [] then (c, Some cs) # getopt_elements rest
           else case rest of
                  [] \<Rightarrow> [(CHR ''?'', None)]
                | next_arg # rest' \<Rightarrow> (c, Some next_arg) # getopt_elements rest'))"

text \<open>The elements after \<^verbatim>\<open>argv[0]\<close> are scanned.\<close>

definition getopt_long :: "string list \<Rightarrow> (char \<times> string option) list" where
  "getopt_long argv = getopt_elements (drop 1 argv)"

subsection \<open>The option loop\<close>

text \<open>
  The loop runs over the results of \<^verbatim>\<open>getopt_long\<close>: the list of the pairs
  (\<^verbatim>\<open>ch\<close>, \<^verbatim>\<open>optarg\<close>) of its successive calls. The statements about the loop
  hold for every such list, whatever command line it comes from.

  \<open>store_at a n v\<close> is \<^verbatim>\<open>a[n++] = v\<close>: the new array and index, or
  \<open>None\<close> when \<open>n\<close> is outside the array.
\<close>

definition store_at :: "'a list \<Rightarrow> nat \<Rightarrow> 'a \<Rightarrow> ('a list \<times> nat) option" where
  "store_at a n v = (if n < length a then Some (a[n := v], n + 1) else None)"

text \<open>The body of the \<^verbatim>\<open>switch\<close>, one branch per \<^verbatim>\<open>case\<close>, in its order.\<close>

definition getopt_case ::
  "('p, 'c) env \<Rightarrow> char \<times> string option \<Rightarrow> ('p, 'c) vars \<Rightarrow> ending + ('p, 'c) vars" where
  "getopt_case E opt st =
     (let ch = fst opt; optarg = snd opt in
      if ch = CHR ''a'' then
        (if prf_algo st \<noteq> None then Inl Usage
         else case check_prf_algo E optarg of
             Some p \<Rightarrow> Inr (st\<lparr>prf_algo := Some p\<rparr>)
           | None \<Rightarrow>
               (case optarg of
                  None \<Rightarrow> Inl Undefined_behaviour
                | Some s \<Rightarrow> if s = ''help'' then Inl (Exit 0) else Inl Usage))
      else if ch = CHR ''b'' then
        (if cipher_chain st \<noteq> None then Inl Usage
         else case check_cipher_chain E optarg of
             Some c \<Rightarrow> Inr (st\<lparr>cipher_chain := Some c\<rparr>)
           | None \<Rightarrow>
               (case optarg of
                  None \<Rightarrow> Inl Undefined_behaviour
                | Some s \<Rightarrow> if s = ''help'' then Inl (Exit 0) else Inl Usage))
      else if ch = CHR ''c'' then Inr (st\<lparr>create_vol := 1\<rparr>)
      else if ch = CHR ''d'' then Inr (st\<lparr>dev := optarg\<rparr>)
      else if ch = CHR ''e'' then Inr (st\<lparr>protect_hidden := 1\<rparr>)
      else if ch = CHR ''f'' then
        (case store_at (h_keyfiles st) (n_hkeyfiles st) optarg of
           None \<Rightarrow> Inl Undefined_behaviour
         | Some (a, n) \<Rightarrow> Inr (st\<lparr>h_keyfiles := a, n_hkeyfiles := n\<rparr>))
      else if ch = CHR ''g'' then Inr (st\<lparr>contain_hidden := 1\<rparr>)
      else if ch = CHR ''i'' then Inr (st\<lparr>info_vol := 1\<rparr>)
      else if ch = CHR ''k'' then
        (case store_at (keyfiles st) (nkeyfiles st) optarg of
           None \<Rightarrow> Inl Undefined_behaviour
         | Some (a, n) \<Rightarrow> Inr (st\<lparr>keyfiles := a, nkeyfiles := n\<rparr>))
      else if ch = CHR ''m'' then Inr (st\<lparr>map_vol := 1, map_name := optarg\<rparr>)
      else if ch = CHR ''s'' then Inr (st\<lparr>sflag := 1, sys_dev := optarg\<rparr>)
      else if ch = CHR ''v'' then Inl (Exit 0)
      else Inl Usage)"

text \<open>The \<^verbatim>\<open>while\<close> loop: it stops at the first branch that ends the process.\<close>

fun getopt_loop ::
  "('p, 'c) env \<Rightarrow> (char \<times> string option) list \<Rightarrow> ('p, 'c) vars \<Rightarrow> ending + ('p, 'c) vars" where
  "getopt_loop E [] st = Inr st"
| "getopt_loop E (opt # opts) st =
     (case getopt_case E opt st of
        Inl t \<Rightarrow> Inl t
      | Inr st' \<Rightarrow> getopt_loop E opts st')"

subsection \<open>Checking the arguments and calling the engine\<close>

text \<open>The condition of the \<^verbatim>\<open>if\<close> under \<^verbatim>\<open>/* Check arguments */\<close>.\<close>

definition invalid_args :: "('p, 'c) vars \<Rightarrow> bool" where
  "invalid_args st =
     (\<not> ((map_vol st \<noteq> 0 \<or> info_vol st \<noteq> 0 \<or> create_vol st \<noteq> 0) \<and> dev st \<noteq> None) \<or>
      (map_vol st \<noteq> 0 \<and> info_vol st \<noteq> 0) \<or>
      (map_vol st \<noteq> 0 \<and> create_vol st \<noteq> 0) \<or>
      (create_vol st \<noteq> 0 \<and> info_vol st \<noteq> 0) \<or>
      (contain_hidden st \<noteq> 0 \<and> \<not> create_vol st \<noteq> 0) \<or>
      (sflag st \<noteq> 0 \<and> sys_dev st = None) \<or>
      (map_vol st \<noteq> 0 \<and> map_name st = None) \<or>
      (\<not> (protect_hidden st \<noteq> 0 \<or> create_vol st \<noteq> 0) \<and> n_hkeyfiles st > 0))"

text \<open>
  The \<^verbatim>\<open>if (create_vol) ... else if (info_vol) ... else if (map_vol) ...\<close> chain and
  \<^verbatim>\<open>return error\<close>. The message that \<^verbatim>\<open>tc_log\<close> prints when
  \<^verbatim>\<open>create_volume\<close> fails changes neither the calls nor the value returned.
  With none of the three flags set \<^verbatim>\<open>error\<close> is returned unassigned.
\<close>

definition dispatch :: "('p, 'c) env \<Rightarrow> ('p, 'c) vars \<Rightarrow> ('p, 'c) outcome" where
  "dispatch E st =
     (if create_vol st \<noteq> 0 then
        (let c = Create_volume (dev st) (contain_hidden st) (keyfiles st) (nkeyfiles st)
                   (h_keyfiles st) (n_hkeyfiles st) (prf_algo st) (cipher_chain st) None None 0 1
         in \<lparr>calls = [c], status = Return (engine E c)\<rparr>)
      else if info_vol st \<noteq> 0 then
        (let c = Info_volume (dev st) (sflag st) (sys_dev st) (protect_hidden st)
                   (keyfiles st) (nkeyfiles st) (h_keyfiles st) (n_hkeyfiles st) None None
                   1 (DEFAULT_RETRIES E)
         in \<lparr>calls = [c], status = Return (engine E c)\<rparr>)
      else if map_vol st \<noteq> 0 then
        (let c = Map_volume (map_name st) (dev st) (sflag st) (sys_dev st) (protect_hidden st)
                   (keyfiles st) (nkeyfiles st) (h_keyfiles st) (n_hkeyfiles st) None None
                   1 (DEFAULT_RETRIES E)
         in \<lparr>calls = [c], status = Return (engine E c)\<rparr>)
      else \<lparr>calls = [], status = Undefined_behaviour\<rparr>)"

text \<open>\<^verbatim>\<open>main\<close>: the option loop, the check of the arguments, the engine call.\<close>

definition main :: "('p, 'c) env \<Rightarrow> (char \<times> string option) list \<Rightarrow> ('p, 'c) outcome" where
  "main E opts =
     (case getopt_loop E opts (init_vars E) of
        Inl t \<Rightarrow> \<lparr>calls = [], status = t\<rparr>
      | Inr st \<Rightarrow>
          if invalid_args st then \<lparr>calls = [], status = Usage\<rparr> else dispatch E st)"

text \<open>
  What an engine call was given: the two key-file arrays with their counts, the PRF and
  the cipher chain, the interactive flag and the retry bound. \<^verbatim>\<open>info_volume\<close> and
  \<^verbatim>\<open>map_volume\<close> have no parameter for a PRF or a cipher chain, so these calls hand
  the engine none; \<^verbatim>\<open>create_volume\<close> has no retry bound.
\<close>

fun call_keyfiles :: "('p, 'c) engine_call \<Rightarrow> string option list \<times> nat" where
  "call_keyfiles (Create_volume d h kf nk hkf nh p c a9 a10 a11 ia) = (kf, nk)"
| "call_keyfiles (Info_volume d s sd ph kf nk hkf nh a9 a10 ia r) = (kf, nk)"
| "call_keyfiles (Map_volume m d s sd ph kf nk hkf nh a10 a11 ia r) = (kf, nk)"

fun call_h_keyfiles :: "('p, 'c) engine_call \<Rightarrow> string option list \<times> nat" where
  "call_h_keyfiles (Create_volume d h kf nk hkf nh p c a9 a10 a11 ia) = (hkf, nh)"
| "call_h_keyfiles (Info_volume d s sd ph kf nk hkf nh a9 a10 ia r) = (hkf, nh)"
| "call_h_keyfiles (Map_volume m d s sd ph kf nk hkf nh a10 a11 ia r) = (hkf, nh)"

fun call_prf :: "('p, 'c) engine_call \<Rightarrow> 'p option" where
  "call_prf (Create_volume d h kf nk hkf nh p c a9 a10 a11 ia) = p"
| "call_prf (Info_volume d s sd ph kf nk hkf nh a9 a10 ia r) = None"
| "call_prf (Map_volume m d s sd ph kf nk hkf nh a10 a11 ia r) = None"

fun call_cipher_chain :: "('p, 'c) engine_call \<Rightarrow> 'c option" where
  "call_cipher_chain (Create_volume d h kf nk hkf nh p c a9 a10 a11 ia) = c"
| "call_cipher_chain (Info_volume d s sd ph kf nk hkf nh a9 a10 ia r) = None"
| "call_cipher_chain (Map_volume m d s sd ph kf nk hkf nh a10 a11 ia r) = None"

fun is_create :: "('p, 'c) engine_call \<Rightarrow> bool" where
  "is_create (Create_volume d h kf nk hkf nh p c a9 a10 a11 ia) = True"
| "is_create (Info_volume d s sd ph kf nk hkf nh a9 a10 ia r) = False"
| "is_create (Map_volume m d s sd ph kf nk hkf nh a10 a11 ia r) = False"

fun call_interactive :: "('p, 'c) engine_call \<Rightarrow> int" where
  "call_interactive (Create_volume d h kf nk hkf nh p c a9 a10 a11 ia) = ia"
| "call_interactive (Info_volume d s sd ph kf nk hkf nh a9 a10 ia r) = ia"
| "call_interactive (Map_volume m d s sd ph kf nk hkf nh a10 a11 ia r) = ia"

fun call_retries :: "('p, 'c) engine_call \<Rightarrow> int option" where
  "call_retries (Create_volume d h kf nk hkf nh p c a9 a10 a11 ia) = None"
| "call_retries (Info_volume d s sd ph kf nk hkf nh a9 a10 ia r) = Some r"
| "call_retries (Map_volume m d s sd ph kf nk hkf nh a10 a11 ia r) = Some r"

text \<open>The command-line arguments of one option letter, in command-line order.\<close>

definition optargs_of :: "char \<Rightarrow> (char \<times> string option) list \<Rightarrow> string option list" where
  "optargs_of ch opts = map snd (filter (\<lambda>opt. fst opt = ch) opts)"

text \<open>The command line without its -a/--pbkdf-prf and -b/--cipher options.\<close>

definition without_selection :: "(char \<times> string option) list \<Rightarrow> (char \<times> string option) list" where
  "without_selection opts = filter (\<lambda>opt. fst opt \<noteq> CHR ''a'' \<and> fst opt \<noteq> CHR ''b'') opts"

text \<open>
  The option \<open>ch\<close> is -a or -b and comes after the options \<open>us\<close>, which already
  hold the same option: \<open>ch\<close> repeats it.
\<close>

definition repeats_selection :: "char \<Rightarrow> (char \<times> string option) list \<Rightarrow> bool" where
  "repeats_selection ch us =
     (ch = CHR ''a'' \<and> optargs_of (CHR ''a'') us \<noteq> [] \<or>
      ch = CHR ''b'' \<and> optargs_of (CHR ''b'') us \<noteq> [])"

text \<open>
  The arguments pass validation: the option loop ends without leaving the process and
  the check of the arguments does not call \<^verbatim>\<open>usage\<close>.
\<close>

definition validated :: "('p, 'c) env \<Rightarrow> (char \<times> string option) list \<Rightarrow> bool" where
  "validated E opts =
     (case getopt_loop E opts (init_vars E) of
        Inl t \<Rightarrow> False
      | Inr st \<Rightarrow> \<not> invalid_args st)"

text \<open>How many of the three mode flags are set.\<close>

definition modes_selected :: "('p, 'c) vars \<Rightarrow> nat" where
  "modes_selected st =
     length (filter (\<lambda>flag. flag \<noteq> 0) [create_vol st, info_vol st, map_vol st])"

section \<open>Parts of the volume engine that main.c only calls\<close>

text \<open>
  \<^verbatim>\<open>info_volume\<close> and \<^verbatim>\<open>map_volume\<close> are not in \<^verbatim>\<open>main.c\<close>. What
  two of the statements below need of them is taken from the specification: the error
  kinds of its section 7, the retry loop of the Volume Prober (section 4.4) and the write
  ceiling of the Hidden-Volume Protector (sections 4.5 and 4.6).
\<close>

text \<open>
  Modelled from the spec: the error kinds of the engine (section 7); the engine's error
  codes are not in \<^verbatim>\<open>main.c\<close>.
\<close>

datatype engine_error =
    InvalidInput | AuthenticationFailed | NotFound | MappingExists
  | DeviceBusy | KernelRejected | IoFailure | Inconsistent

text \<open>
  Modelled from the spec: the interactive retry loop of the Volume Prober, missing from
  the sources (section 4.4: "failure to find any valid header after exhausting candidates
  triggers a fresh passphrase prompt and the whole probe repeats, bounded by retries; after
  retries consecutive failures it fails with AuthenticationFailed"). \<open>probe k\<close> is the
  outcome of the whole probe with the passphrase of prompt number \<open>k\<close>: a volume, or
  \<open>None\<close> when no candidate gave a valid header. \<open>probe_retry probe r k\<close> has
  \<open>r\<close> attempts left after \<open>k\<close> prompts; it returns the number of prompts made and
  the result.
\<close>

fun probe_retry :: "(nat \<Rightarrow> 'v option) \<Rightarrow> nat \<Rightarrow> nat \<Rightarrow> nat \<times> (engine_error + 'v)" where
  "probe_retry probe 0 k = (k, Inl AuthenticationFailed)"
| "probe_retry probe (Suc r) k =
     (case probe k of
        Some v \<Rightarrow> (Suc k, Inr v)
      | None \<Rightarrow> probe_retry probe r (Suc k))"

text \<open>
  Modelled from the spec: the probe on interactive use with the retry count that the
  caller passes (section 4.4), missing from the sources; the count is a C \<^verbatim>\<open>int\<close>.
\<close>

definition interactive_probe :: "int \<Rightarrow> (nat \<Rightarrow> 'v option) \<Rightarrow> nat \<times> (engine_error + 'v)" where
  "interactive_probe retries probe = probe_retry probe (nat retries) 0"

text \<open>
  Modelled from the spec: the two fields of the decoded Volume Header (section 3) that
  the Hidden-Volume Protector reads; the header codec is missing from the sources.
\<close>

record volume_header =
  encrypted_area_start :: nat
  encrypted_area_size :: nat

text \<open>
  Modelled from the spec: section 4.5, "compute protected_offset =
  hidden_header.encrypted_area_start"; \<open>None\<close> when no hidden-volume header decrypts.
  The Hidden-Volume Protector is missing from the sources.
\<close>

definition protected_offset :: "volume_header option \<Rightarrow> nat option" where
  "protected_offset hidden = map_option encrypted_area_start hidden"

text \<open>
  Modelled from the spec: the mapping of a volume (sections 3 and 4.6), reduced to what a
  write sees: the optional write ceiling and the content at each byte offset. The Mapping
  Orchestrator is missing from the sources.
\<close>

record 'a mapping =
  write_ceiling :: "nat option"
  content :: "nat \<Rightarrow> 'a"

text \<open>
  Modelled from the spec: the outer volume's mapping, built "with an optional
  write-ceiling from section 4.5" (section 4.6); missing from the sources.
\<close>

definition outer_mapping :: "volume_header option \<Rightarrow> (nat \<Rightarrow> 'a) \<Rightarrow> 'a mapping" where
  "outer_mapping hidden c = \<lparr>write_ceiling = protected_offset hidden, content = c\<rparr>"

text \<open>
  Modelled from the spec: one write to a mapping (section 4.5: a write "at or beyond
  protected_offset must be rejected rather than applied, and the rejection must be
  observable by the mapping layer as a benign I/O error"; with no hidden-volume header
  "protection is a no-op"). The mapping layer is missing from the sources.
\<close>

definition mapping_write :: "'a mapping \<Rightarrow> nat \<Rightarrow> 'a \<Rightarrow> engine_error + 'a mapping" where
  "mapping_write m off v =
     (case write_ceiling m of
        None \<Rightarrow> Inr (m\<lparr>content := (content m)(off := v)\<rparr>)
      | Some H \<Rightarrow>
          if H \<le> off then Inl IoFailure
          else Inr (m\<lparr>content := (content m)(off := v)\<rparr>))"

text \<open>
  Modelled from the spec: a sequence of writes issued to a mapping, in the order in which
  the mapping layer serves them; a rejected write changes nothing.
\<close>

fun mapping_writes :: "'a mapping \<Rightarrow> (nat \<times> 'a) list \<Rightarrow> 'a mapping" where
  "mapping_writes m [] = m"
| "mapping_writes m (w # ws) =
     (case mapping_write m (fst w) (snd w) of
        Inl e \<Rightarrow> mapping_writes m ws
      | Inr m' \<Rightarrow> mapping_writes m' ws)"

section \<open>Examples to run the model on\<close>

subsection \<open>An environment to run the model in\<close>

text \<open>
  Small values for the constants of \<^verbatim>\<open>tc-play.h\<close> and \<^verbatim>\<open>signal.h\<close>, a
  registry of two PRFs and one cipher chain, and an engine that fails (-1) when it is
  given no key file. The general statements below hold for every environment.
\<close>

definition example_env :: "(nat, nat) env" where
  "example_env =
     \<lparr>MAX_KEYFILES = 4, DEFAULT_RETRIES = 3, SIGUSR1 = 30, SIGINFO = 29,
      check_prf_algo = (\<lambda>n. if n = Some ''SHA512'' then Some 1
                             else if n = Some ''RIPEMD160'' then Some 0 else None),
      check_cipher_chain = (\<lambda>n. if n = Some ''AES-256-XTS'' then Some 0 else None),
      engine = (\<lambda>c. if snd (call_keyfiles c) = 0 then - 1 else 0)\<rparr>"

text \<open>
  What \<^verbatim>\<open>getopt_long\<close> returns for a command line that maps a volume with
  hidden-volume protection,
  \<^verbatim>\<open>tc-play -m vol -d /dev/da0s1 -s /dev/da0 -e -k k1 --keyfile-hidden=h1 -k k2\<close>,
  and the one call of the engine that it leads to.
\<close>

definition example_map_opts :: "(char \<times> string option) list" where
  "example_map_opts =
     [(CHR ''m'', Some ''vol''), (CHR ''d'', Some ''/dev/da0s1''), (CHR ''s'', Some ''/dev/da0''),
      (CHR ''e'', None), (CHR ''k'', Some ''k1''), (CHR ''f'', Some ''h1''), (CHR ''k'', Some ''k2'')]"

definition example_map_call :: "(nat, nat) engine_call" where
  "example_map_call =
     Map_volume (Some ''vol'') (Some ''/dev/da0s1'') 1 (Some ''/dev/da0'') 1
       [Some ''k1'', Some ''k2'', None, None] 2 [Some ''h1'', None, None, None] 1
       None None 1 3"

text \<open>
  The same for \<^verbatim>\<open>tc-play -v -a SHA512 -a SHA512\<close>,
  \<^verbatim>\<open>tc-play -a SHA512 -a RIPEMD160 -v\<close>,
  \<^verbatim>\<open>tc-play -i -d /dev/da0s1 -a SHA512\<close> and
  \<^verbatim>\<open>tc-play -c -d /dev/da0s1 -a SHA512 -b AES-256-XTS -k k1\<close>, with the engine
  calls of the last two.
\<close>

definition example_version_opts :: "(char \<times> string option) list" where
  "example_version_opts =
     [(CHR ''v'', None), (CHR ''a'', Some ''SHA512''), (CHR ''a'', Some ''SHA512'')]"

definition example_twice_opts :: "(char \<times> string option) list" where
  "example_twice_opts =
     [(CHR ''a'', Some ''SHA512''), (CHR ''a'', Some ''RIPEMD160''), (CHR ''v'', None)]"

definition example_info_opts :: "(char \<times> string option) list" where
  "example_info_opts =
     [(CHR ''i'', None), (CHR ''d'', Some ''/dev/da0s1''), (CHR ''a'', Some ''SHA512'')]"

definition example_info_call :: "(nat, nat) engine_call" where
  "example_info_call =
     Info_volume (Some ''/dev/da0s1'') 0 None 0 [None, None, None, None] 0
       [None, None, None, None] 0 None None 1 3"

definition example_create_opts :: "(char \<times> string option) list" where
  "example_create_opts =
     [(CHR ''c'', None), (CHR ''d'', Some ''/dev/da0s1''), (CHR ''a'', Some ''SHA512''),
      (CHR ''b'', Some ''AES-256-XTS''), (CHR ''k'', Some ''k1'')]"

definition example_create_call :: "(nat, nat) engine_call" where
  "example_create_call =
     Create_volume (Some ''/dev/da0s1'') 0 [Some ''k1'', None, None, None] 1
       [None, None, None, None] 0 (Some 1) (Some 0) None None 0 1"

text \<open>
  An info command line that names the hidden key file with the short option,
  \<^verbatim>\<open>tc-play -i -d /dev/da0s1 -e -f h1\<close>, and the same with the long option,
  \<^verbatim>\<open>tc-play -i -d /dev/da0s1 -e --keyfile-hidden h1\<close>.
\<close>

definition example_short_f_argv :: "string list" where
  "example_short_f_argv = [''tc-play'', ''-i'', ''-d'', ''/dev/da0s1'', ''-e'', ''-f'', ''h1'']"

definition example_long_f_argv :: "string list" where
  "example_long_f_argv =
     [''tc-play'', ''-i'', ''-d'', ''/dev/da0s1'', ''-e'', ''--keyfile-hidden'', ''h1'']"

section \<open>Properties of the option loop\<close>

lemma store_at_Some:
  "store_at a n v = Some (a', n') \<longleftrightarrow> n < length a \<and> a' = a[n := v] \<and> n' = Suc n"
  by (auto simp: store_at_def)

subsection \<open>The key-file arrays\<close>

lemma take_store:
  "n < length a \<Longrightarrow> take (Suc n) (a[n := v]) = take n a @ [v]"
  by (simp add: take_Suc_conv_app_nth)

lemma getopt_case_keyfiles:
  assumes "getopt_case E opt st = Inr st'" and "nkeyfiles st \<le> length (keyfiles st)"
  shows "length (keyfiles st') = length (keyfiles st) \<and>
         nkeyfiles st' \<le> length (keyfiles st') \<and>
         take (nkeyfiles st') (keyfiles st') =
           take (nkeyfiles st) (keyfiles st) @ optargs_of (CHR ''k'') [opt]"
  using assms
  by (auto simp: getopt_case_def Let_def optargs_of_def store_at_Some take_store
           split: if_splits option.splits)

lemma getopt_case_h_keyfiles:
  assumes "getopt_case E opt st = Inr st'" and "n_hkeyfiles st \<le> length (h_keyfiles st)"
  shows "length (h_keyfiles st') = length (h_keyfiles st) \<and>
         n_hkeyfiles st' \<le> length (h_keyfiles st') \<and>
         take (n_hkeyfiles st') (h_keyfiles st') =
           take (n_hkeyfiles st) (h_keyfiles st) @ optargs_of (CHR ''f'') [opt]"
  using assms
  by (auto simp: getopt_case_def Let_def optargs_of_def store_at_Some take_store
           split: if_splits option.splits)

lemma optargs_of_Cons:
  "optargs_of ch (opt # opts) = optargs_of ch [opt] @ optargs_of ch opts"
  by (simp add: optargs_of_def)

lemma getopt_loop_keyfiles:
  "getopt_loop E opts st = Inr st' \<Longrightarrow> nkeyfiles st \<le> length (keyfiles st) \<Longrightarrow>
     length (keyfiles st') = length (keyfiles st) \<and>
     nkeyfiles st' \<le> length (keyfiles st') \<and>
     take (nkeyfiles st') (keyfiles st') =
       take (nkeyfiles st) (keyfiles st) @ optargs_of (CHR ''k'') opts"
proof (induction opts arbitrary: st)
  case Nil
  then show ?case by (simp add: optargs_of_def)
next
  case (Cons opt opts)
  from Cons.prems(1) obtain st1 where
    s1: "getopt_case E opt st = Inr st1" and l1: "getopt_loop E opts st1 = Inr st'"
    by (auto split: sum.splits)
  note a = getopt_case_keyfiles [OF s1 Cons.prems(2)]
  from a have "nkeyfiles st1 \<le> length (keyfiles st1)" by simp
  note b = Cons.IH [OF l1 this]
  from a b show ?case
    by (simp add: optargs_of_Cons [of _ opt opts])
qed

lemma getopt_loop_h_keyfiles:
  "getopt_loop E opts st = Inr st' \<Longrightarrow> n_hkeyfiles st \<le> length (h_keyfiles st) \<Longrightarrow>
     length (h_keyfiles st') = length (h_keyfiles st) \<and>
     n_hkeyfiles st' \<le> length (h_keyfiles st') \<and>
     take (n_hkeyfiles st') (h_keyfiles st') =
       take (n_hkeyfiles st) (h_keyfiles st) @ optargs_of (CHR ''f'') opts"
proof (induction opts arbitrary: st)
  case Nil
  then show ?case by (simp add: optargs_of_def)
next
  case (Cons opt opts)
  from Cons.prems(1) obtain st1 where
    s1: "getopt_case E opt st = Inr st1" and l1: "getopt_loop E opts st1 = Inr st'"
    by (auto split: sum.splits)
  note a = getopt_case_h_keyfiles [OF s1 Cons.prems(2)]
  from a have "n_hkeyfiles st1 \<le> length (h_keyfiles st1)" by simp
  note b = Cons.IH [OF l1 this]
  from a b show ?case
    by (simp add: optargs_of_Cons [of _ opt opts])
qed

subsection \<open>The PRF and the cipher chain\<close>

lemma getopt_case_prf_kept:
  "getopt_case E opt st = Inr st' \<Longrightarrow> fst opt \<noteq> CHR ''a'' \<Longrightarrow> prf_algo st' = prf_algo st"
  by (auto simp: getopt_case_def Let_def split: if_splits option.splits)

lemma getopt_case_prf_set:
  "getopt_case E opt st = Inr st' \<Longrightarrow> fst opt = CHR ''a'' \<Longrightarrow>
     prf_algo st = None \<and> prf_algo st' = check_prf_algo E (snd opt) \<and>
     check_prf_algo E (snd opt) \<noteq> None"
  by (auto simp: getopt_case_def Let_def split: if_splits option.splits)

lemma getopt_loop_prf:
  "getopt_loop E opts st = Inr st' \<Longrightarrow>
     (case optargs_of (CHR ''a'') opts of
        [] \<Rightarrow> prf_algo st' = prf_algo st
      | [n] \<Rightarrow> prf_algo st = None \<and> prf_algo st' = check_prf_algo E n \<and>
               check_prf_algo E n \<noteq> None
      | _ \<Rightarrow> False)"
proof (induction opts arbitrary: st)
  case Nil
  then show ?case by (simp add: optargs_of_def)
next
  case (Cons opt opts)
  from Cons.prems obtain st1 where
    s1: "getopt_case E opt st = Inr st1" and l1: "getopt_loop E opts st1 = Inr st'"
    by (auto split: sum.splits)
  note ih = Cons.IH [OF l1]
  show ?case
  proof (cases "fst opt = CHR ''a''")
    case True
    note a = getopt_case_prf_set [OF s1 True]
    show ?thesis
    proof (cases "optargs_of (CHR ''a'') opts")
      case Nil
      with ih have "prf_algo st' = prf_algo st1" by simp
      moreover from True Nil have "optargs_of (CHR ''a'') (opt # opts) = [snd opt]"
        by (simp add: optargs_of_def)
      ultimately show ?thesis using a by auto
    next
      case (Cons n ns)
      with ih a show ?thesis by (cases ns) simp_all
    qed
  next
    case False
    note a = getopt_case_prf_kept [OF s1 False]
    from False have "optargs_of (CHR ''a'') (opt # opts) = optargs_of (CHR ''a'') opts"
      by (simp add: optargs_of_def)
    with a ih show ?thesis by (simp split: list.splits)
  qed
qed

lemma getopt_case_cipher_kept:
  "getopt_case E opt st = Inr st' \<Longrightarrow> fst opt \<noteq> CHR ''b'' \<Longrightarrow>
     cipher_chain st' = cipher_chain st"
  by (auto simp: getopt_case_def Let_def split: if_splits option.splits)

lemma getopt_case_cipher_set:
  "getopt_case E opt st = Inr st' \<Longrightarrow> fst opt = CHR ''b'' \<Longrightarrow>
     cipher_chain st = None \<and> cipher_chain st' = check_cipher_chain E (snd opt) \<and>
     check_cipher_chain E (snd opt) \<noteq> None"
  by (auto simp: getopt_case_def Let_def split: if_splits option.splits)

lemma getopt_loop_cipher:
  "getopt_loop E opts st = Inr st' \<Longrightarrow>
     (case optargs_of (CHR ''b'') opts of
        [] \<Rightarrow> cipher_chain st' = cipher_chain st
      | [n] \<Rightarrow> cipher_chain st = None \<and> cipher_chain st' = check_cipher_chain E n \<and>
               check_cipher_chain E n \<noteq> None
      | _ \<Rightarrow> False)"
proof (induction opts arbitrary: st)
  case Nil
  then show ?case by (simp add: optargs_of_def)
next
  case (Cons opt opts)
  from Cons.prems obtain st1 where
    s1: "getopt_case E opt st = Inr st1" and l1: "getopt_loop E opts st1 = Inr st'"
    by (auto split: sum.splits)
  note ih = Cons.IH [OF l1]
  show ?case
  proof (cases "fst opt = CHR ''b''")
    case True
    note a = getopt_case_cipher_set [OF s1 True]
    show ?thesis
    proof (cases "optargs_of (CHR ''b'') opts")
      case Nil
      with ih have "cipher_chain st' = cipher_chain st1" by simp
      moreover from True Nil have "optargs_of (CHR ''b'') (opt # opts) = [snd opt]"
        by (simp add: optargs_of_def)
      ultimately show ?thesis using a by auto
    next
      case (Cons n ns)
      with ih a show ?thesis by (cases ns) simp_all
    qed
  next
    case False
    note a = getopt_case_cipher_kept [OF s1 False]
    from False have "optargs_of (CHR ''b'') (opt # opts) = optargs_of (CHR ''b'') opts"
      by (simp add: optargs_of_def)
    with a ih show ?thesis by (simp split: list.splits)
  qed
qed

subsection \<open>How the loop can end the process\<close>

lemma getopt_case_Inl:
  "getopt_case E opt st = Inl t \<Longrightarrow>
     t = Usage \<or>
     t = Exit 0 \<and> (fst opt = CHR ''v'' \<or>
                   (fst opt = CHR ''a'' \<or> fst opt = CHR ''b'') \<and> snd opt = Some ''help'') \<or>
     t = Undefined_behaviour \<and>
       ((fst opt = CHR ''a'' \<or> fst opt = CHR ''b'') \<and> snd opt = None \<or>
        fst opt = CHR ''k'' \<and> length (keyfiles st) \<le> nkeyfiles st \<or>
        fst opt = CHR ''f'' \<and> length (h_keyfiles st) \<le> n_hkeyfiles st)"
  by (auto simp: getopt_case_def Let_def store_at_def split: if_splits option.splits)

lemma getopt_loop_Inl:
  "getopt_loop E opts st = Inl t \<Longrightarrow>
   nkeyfiles st \<le> length (keyfiles st) \<Longrightarrow> n_hkeyfiles st \<le> length (h_keyfiles st) \<Longrightarrow>
     t = Usage \<or>
     t = Exit 0 \<and> (CHR ''v'' \<in> fst ` set opts \<or>
                   Some ''help'' \<in> set (optargs_of (CHR ''a'') opts) \<or>
                   Some ''help'' \<in> set (optargs_of (CHR ''b'') opts)) \<or>
     t = Undefined_behaviour \<and>
       (None \<in> set (optargs_of (CHR ''a'') opts) \<or>
        None \<in> set (optargs_of (CHR ''b'') opts) \<or>
        length (keyfiles st) < nkeyfiles st + length (optargs_of (CHR ''k'') opts) \<or>
        length (h_keyfiles st) < n_hkeyfiles st + length (optargs_of (CHR ''f'') opts))"
proof (induction opts arbitrary: st)
  case Nil
  then show ?case by simp
next
  case (Cons opt opts)
  show ?case
  proof (cases "getopt_case E opt st")
    case (Inl t')
    with Cons.prems(1) have "t' = t" by simp
    with Inl have "getopt_case E opt st = Inl t" by simp
    from getopt_case_Inl [OF this] show ?thesis
      by (cases opt) (auto simp: optargs_of_def)
  next
    case (Inr st1)
    with Cons.prems(1) have l1: "getopt_loop E opts st1 = Inl t" by simp
    note k = getopt_case_keyfiles [OF Inr Cons.prems(2)]
    note h = getopt_case_h_keyfiles [OF Inr Cons.prems(3)]
    from k have k1: "nkeyfiles st1 \<le> length (keyfiles st1)" by simp
    from h have h1: "n_hkeyfiles st1 \<le> length (h_keyfiles st1)" by simp
    have nk: "nkeyfiles st1 = nkeyfiles st + length (optargs_of (CHR ''k'') [opt])"
      using k Cons.prems(2) by (metis length_append length_take min.absorb2)
    have nh: "n_hkeyfiles st1 = n_hkeyfiles st + length (optargs_of (CHR ''f'') [opt])"
      using h Cons.prems(3) by (metis length_append length_take min.absorb2)
    note ih = Cons.IH [OF l1 k1 h1]
    have lk: "length (optargs_of (CHR ''k'') (opt # opts)) =
          length (optargs_of (CHR ''k'') [opt]) + length (optargs_of (CHR ''k'') opts)"
      by (simp add: optargs_of_def)
    have lf: "length (optargs_of (CHR ''f'') (opt # opts)) =
          length (optargs_of (CHR ''f'') [opt]) + length (optargs_of (CHR ''f'') opts)"
      by (simp add: optargs_of_def)
    have sa: "set (optargs_of (CHR ''a'') opts) \<subseteq> set (optargs_of (CHR ''a'') (opt # opts))"
      and sb: "set (optargs_of (CHR ''b'') opts) \<subseteq> set (optargs_of (CHR ''b'') (opt # opts))"
      by (auto simp: optargs_of_def)
    from ih k h nk nh lk lf sa sb show ?thesis
      by (elim disjE conjE) auto
  qed
qed

subsection \<open>More key files than the arrays hold\<close>

lemma overflow_loop:
  "nkeyfiles st \<le> length (keyfiles st) \<Longrightarrow> length (keyfiles st) - nkeyfiles st < m \<Longrightarrow>
     getopt_loop E (replicate m (CHR ''k'', v) @ rest) st = Inl Undefined_behaviour"
proof (induction m arbitrary: st)
  case 0
  then show ?case by simp
next
  case (Suc m)
  show ?case
  proof (cases "nkeyfiles st < length (keyfiles st)")
    case True
    let ?st1 = "st\<lparr>keyfiles := (keyfiles st)[nkeyfiles st := v], nkeyfiles := Suc (nkeyfiles st)\<rparr>"
    have s: "getopt_case E (CHR ''k'', v) st = Inr ?st1"
      using True by (simp add: getopt_case_def store_at_def)
    have "getopt_loop E (replicate m (CHR ''k'', v) @ rest) ?st1 = Inl Undefined_behaviour"
      using True Suc.prems by (intro Suc.IH) auto
    with s show ?thesis by simp
  next
    case False
    then have "getopt_case E (CHR ''k'', v) st = Inl Undefined_behaviour"
      by (simp add: getopt_case_def store_at_def)
    then show ?thesis by simp
  qed
qed

lemma overflow_loop_hidden:
  "n_hkeyfiles st \<le> length (h_keyfiles st) \<Longrightarrow> length (h_keyfiles st) - n_hkeyfiles st < m \<Longrightarrow>
     getopt_loop E (replicate m (CHR ''f'', v) @ rest) st = Inl Undefined_behaviour"
proof (induction m arbitrary: st)
  case 0
  then show ?case by simp
next
  case (Suc m)
  show ?case
  proof (cases "n_hkeyfiles st < length (h_keyfiles st)")
    case True
    let ?st1 = "st\<lparr>h_keyfiles := (h_keyfiles st)[n_hkeyfiles st := v],
                    n_hkeyfiles := Suc (n_hkeyfiles st)\<rparr>"
    have s: "getopt_case E (CHR ''f'', v) st = Inr ?st1"
      using True by (simp add: getopt_case_def store_at_def)
    have "getopt_loop E (replicate m (CHR ''f'', v) @ rest) ?st1 = Inl Undefined_behaviour"
      using True Suc.prems by (intro Suc.IH) auto
    with s show ?thesis by simp
  next
    case False
    then have "getopt_case E (CHR ''f'', v) st = Inl Undefined_behaviour"
      by (simp add: getopt_case_def store_at_def)
    then show ?thesis by simp
  qed
qed

subsection \<open>From the loop to the engine call\<close>

lemma init_vars_bounds:
  "nkeyfiles (init_vars E) \<le> length (keyfiles (init_vars E))"
  "n_hkeyfiles (init_vars E) \<le> length (h_keyfiles (init_vars E))"
  by (simp_all add: init_vars_def)

lemma main_calls:
  "c \<in> set (calls (main E opts)) \<Longrightarrow>
     \<exists>st. getopt_loop E opts (init_vars E) = Inr st \<and> \<not> invalid_args st \<and>
          main E opts = dispatch E st \<and> calls (dispatch E st) = [c]"
  by (auto simp: main_def dispatch_def Let_def split: sum.splits if_splits)

lemma undefined_behaviour_sources:
  assumes "status (main E opts) = Undefined_behaviour"
  shows "None \<in> set (optargs_of (CHR ''a'') opts) \<or>
         None \<in> set (optargs_of (CHR ''b'') opts) \<or>
         MAX_KEYFILES E < length (optargs_of (CHR ''k'') opts) \<or>
         MAX_KEYFILES E < length (optargs_of (CHR ''f'') opts)"
proof (cases "getopt_loop E opts (init_vars E)")
  case (Inl t)
  with assms have "t = Undefined_behaviour" by (simp add: main_def)
  with getopt_loop_Inl [OF Inl init_vars_bounds] show ?thesis
    by (simp add: init_vars_def)
next
  case (Inr st)
  with assms show ?thesis
    by (auto simp: main_def dispatch_def invalid_args_def Let_def split: if_splits)
qed

lemma main_validated:
  "getopt_loop E opts (init_vars E) = Inr st \<Longrightarrow> \<not> invalid_args st \<Longrightarrow>
     main E opts = dispatch E st"
  by (simp add: main_def)

lemma dispatch_keyfiles:
  "calls (dispatch E st) = [c] \<Longrightarrow>
     call_keyfiles c = (keyfiles st, nkeyfiles st) \<and>
     call_h_keyfiles c = (h_keyfiles st, n_hkeyfiles st)"
  by (auto simp: dispatch_def Let_def split: if_splits)

lemma take_eq_nth:
  "take n xs = ys \<Longrightarrow> n \<le> length xs \<Longrightarrow> n = length ys \<and> (\<forall>i<length ys. xs ! i = ys ! i)"
  by (metis length_take min.absorb2 nth_take)

subsection \<open>Runs of the example\<close>

lemma example_map_run:
  "main example_env example_map_opts = \<lparr>calls = [example_map_call], status = Return 0\<rparr>"
  by code_simp

lemma example_map_loop:
  "getopt_loop example_env example_map_opts (init_vars example_env) =
     Inr \<lparr>dev = Some ''/dev/da0s1'', sys_dev = Some ''/dev/da0'', map_name = Some ''vol'',
      keyfiles = [Some ''k1'', Some ''k2'', None, None],
      h_keyfiles = [Some ''h1'', None, None, None],
      nkeyfiles = 2, n_hkeyfiles = 1,
      sflag = 1, info_vol = 0, map_vol = 1, protect_hidden = 1,
      create_vol = 0, contain_hidden = 0,
      prf_algo = None, cipher_chain = None\<rparr>"
  by code_simp

lemma example_command_lines:
  "getopt_long [''tc-play'', ''-m'', ''vol'', ''-d'', ''/dev/da0s1'', ''-s'', ''/dev/da0'', ''-e'',
                ''-k'', ''k1'', ''--keyfile-hidden=h1'', ''-k'', ''k2''] = example_map_opts"
  "getopt_long [''tc-play'', ''-v'', ''-a'', ''SHA512'', ''-a'', ''SHA512''] = example_version_opts"
  "getopt_long [''tc-play'', ''-a'', ''SHA512'', ''-a'', ''RIPEMD160'', ''-v''] = example_twice_opts"
  "getopt_long [''tc-play'', ''-i'', ''-d'', ''/dev/da0s1'', ''-a'', ''SHA512''] = example_info_opts"
  "getopt_long [''tc-play'', ''-c'', ''-d'', ''/dev/da0s1'', ''-a'', ''SHA512'',
                ''-b'', ''AES-256-XTS'', ''-k'', ''k1''] = example_create_opts"
  by code_simp+

lemma example_version_run:
  "main example_env example_version_opts = \<lparr>calls = [], status = Exit 0\<rparr>"
  by code_simp

lemma example_twice_run:
  "main example_env example_twice_opts = \<lparr>calls = [], status = Usage\<rparr>"
  by code_simp

lemma example_info_run:
  "main example_env example_info_opts = \<lparr>calls = [example_info_call], status = Return (- 1)\<rparr>"
  by code_simp

lemma example_create_run:
  "main example_env example_create_opts = \<lparr>calls = [example_create_call], status = Return 0\<rparr>"
  by code_simp

subsection \<open>Each of -a and -b at most once\<close>

lemma getopt_loop_once:
  assumes "getopt_loop E opts st = Inr st'"
  shows "length (optargs_of (CHR ''a'') opts) \<le> 1 \<and> length (optargs_of (CHR ''b'') opts) \<le> 1"
proof -
  from getopt_loop_prf [OF assms] have "length (optargs_of (CHR ''a'') opts) \<le> 1"
    by (cases "optargs_of (CHR ''a'') opts" rule: list.exhaust) (auto split: list.splits)
  moreover
  from getopt_loop_cipher [OF assms] have "length (optargs_of (CHR ''b'') opts) \<le> 1"
    by (cases "optargs_of (CHR ''b'') opts" rule: list.exhaust) (auto split: list.splits)
  ultimately show ?thesis by simp
qed

lemma getopt_loop_append:
  "getopt_loop E (xs @ ys) st =
     (case getopt_loop E xs st of
        Inl t \<Rightarrow> Inl t
      | Inr st' \<Rightarrow> getopt_loop E ys st')"
  by (induction xs arbitrary: st) (auto split: sum.splits)

lemma getopt_case_repeated:
  "prf_algo st \<noteq> None \<Longrightarrow> getopt_case E (CHR ''a'', n) st = Inl Usage"
  "cipher_chain st \<noteq> None \<Longrightarrow> getopt_case E (CHR ''b'', n) st = Inl Usage"
  by (simp_all add: getopt_case_def)

lemma getopt_loop_selected:
  assumes "getopt_loop E us (init_vars E) = Inr st"
  shows "(optargs_of (CHR ''a'') us \<noteq> [] \<longrightarrow> prf_algo st \<noteq> None) \<and>
         (optargs_of (CHR ''b'') us \<noteq> [] \<longrightarrow> cipher_chain st \<noteq> None)"
proof -
  from getopt_loop_prf [OF assms] have "optargs_of (CHR ''a'') us \<noteq> [] \<longrightarrow> prf_algo st \<noteq> None"
    by (cases "optargs_of (CHR ''a'') us") (auto split: list.splits)
  moreover
  from getopt_loop_cipher [OF assms] have "optargs_of (CHR ''b'') us \<noteq> [] \<longrightarrow> cipher_chain st \<noteq> None"
    by (cases "optargs_of (CHR ''b'') us") (auto split: list.splits)
  ultimately show ?thesis by simp
qed

lemma repeated_option_split:
  assumes "2 \<le> length (optargs_of ch opts)"
  shows "\<exists>us n ys. opts = us @ (ch, n) # ys \<and> length (optargs_of ch us) = 1"
  using assms
proof (induction opts rule: rev_induct)
  case Nil
  then show ?case by (simp add: optargs_of_def)
next
  case (snoc opt opts)
  show ?case
  proof (cases "2 \<le> length (optargs_of ch opts)")
    case True
    from snoc.IH [OF True] obtain us n ys where
      "opts = us @ (ch, n) # ys" and "length (optargs_of ch us) = 1"
      by blast
    then have "opts @ [opt] = us @ (ch, n) # (ys @ [opt]) \<and> length (optargs_of ch us) = 1"
      by simp
    then show ?thesis by blast
  next
    case False
    with snoc.prems have f: "fst opt = ch" and l: "length (optargs_of ch opts) = 1"
      by (auto simp: optargs_of_def split: if_splits)
    from f have "opts @ [opt] = opts @ (ch, snd opt) # []"
      by (cases opt) simp
    with l show ?thesis by blast
  qed
qed

lemma repeated_selection_at:
  assumes "repeats_selection ch us"
  shows "calls (main E (us @ (ch, n) # ys)) = [] \<and>
         status (main E (us @ (ch, n) # ys)) =
           (case getopt_loop E us (init_vars E) of Inl t \<Rightarrow> t | Inr st \<Rightarrow> Usage) \<and>
         (status (main E (us @ (ch, n) # ys)) = Usage \<or>
          status (main E (us @ (ch, n) # ys)) = Exit 0 \<and>
            (CHR ''v'' \<in> fst ` set us \<or>
             Some ''help'' \<in> set (optargs_of (CHR ''a'') us) \<or>
             Some ''help'' \<in> set (optargs_of (CHR ''b'') us)) \<or>
          status (main E (us @ (ch, n) # ys)) = Undefined_behaviour \<and>
            (None \<in> set (optargs_of (CHR ''a'') us) \<or>
             None \<in> set (optargs_of (CHR ''b'') us) \<or>
             MAX_KEYFILES E < length (optargs_of (CHR ''k'') us) \<or>
             MAX_KEYFILES E < length (optargs_of (CHR ''f'') us)))"
proof (cases "getopt_loop E us (init_vars E)")
  case (Inl t)
  then have m: "main E (us @ (ch, n) # ys) = \<lparr>calls = [], status = t\<rparr>"
    by (simp add: main_def getopt_loop_append)
  from getopt_loop_Inl [OF Inl init_vars_bounds] m Inl show ?thesis
    by (auto simp: init_vars_def)
next
  case (Inr st)
  from getopt_loop_selected [OF Inr] assms
  have "getopt_case E (ch, n) st = Inl Usage"
    by (auto simp: getopt_case_repeated repeats_selection_def)
  with Inr have "main E (us @ (ch, n) # ys) = \<lparr>calls = [], status = Usage\<rparr>"
    by (simp add: main_def getopt_loop_append)
  with Inr show ?thesis by simp
qed


subsection \<open>The options -a and -b touch nothing but the two selections\<close>

lemma getopt_case_frame:
  "fst opt \<noteq> CHR ''a'' \<Longrightarrow> fst opt \<noteq> CHR ''b'' \<Longrightarrow>
     getopt_case E opt (st\<lparr>prf_algo := x, cipher_chain := y\<rparr>) =
       (case getopt_case E opt st of
          Inl t \<Rightarrow> Inl t
        | Inr s \<Rightarrow> Inr (s\<lparr>prf_algo := x, cipher_chain := y\<rparr>))"
  by (auto simp: getopt_case_def Let_def store_at_def)

lemma getopt_loop_frame:
  "\<forall>opt\<in>set opts. fst opt \<noteq> CHR ''a'' \<and> fst opt \<noteq> CHR ''b'' \<Longrightarrow>
     getopt_loop E opts (st\<lparr>prf_algo := x, cipher_chain := y\<rparr>) =
       (case getopt_loop E opts st of
          Inl t \<Rightarrow> Inl t
        | Inr s \<Rightarrow> Inr (s\<lparr>prf_algo := x, cipher_chain := y\<rparr>))"
  by (induction opts arbitrary: st) (auto simp: getopt_case_frame split: sum.splits)

lemma getopt_case_selection:
  "getopt_case E opt st = Inr st1 \<Longrightarrow> fst opt = CHR ''a'' \<or> fst opt = CHR ''b'' \<Longrightarrow>
     st = st1\<lparr>prf_algo := prf_algo st, cipher_chain := cipher_chain st\<rparr>"
  by (auto simp: getopt_case_def Let_def split: if_splits option.splits)

lemma getopt_case_other:
  "getopt_case E opt st = Inr st1 \<Longrightarrow> fst opt \<noteq> CHR ''a'' \<Longrightarrow> fst opt \<noteq> CHR ''b'' \<Longrightarrow>
     prf_algo st1 = prf_algo st \<and> cipher_chain st1 = cipher_chain st"
  by (simp add: getopt_case_prf_kept getopt_case_cipher_kept)

lemma getopt_loop_without_selection:
  "getopt_loop E opts st = Inr st' \<Longrightarrow>
     getopt_loop E (without_selection opts) st =
       Inr (st'\<lparr>prf_algo := prf_algo st, cipher_chain := cipher_chain st\<rparr>)"
proof (induction opts arbitrary: st)
  case Nil
  then show ?case by (simp add: without_selection_def)
next
  case (Cons opt opts)
  from Cons.prems obtain st1 where
    s1: "getopt_case E opt st = Inr st1" and l1: "getopt_loop E opts st1 = Inr st'"
    by (auto split: sum.splits)
  note ih = Cons.IH [OF l1]
  show ?case
  proof (cases "fst opt = CHR ''a'' \<or> fst opt = CHR ''b''")
    case True
    then have w: "without_selection (opt # opts) = without_selection opts"
      by (auto simp: without_selection_def)
    have n: "\<forall>opt\<in>set (without_selection opts). fst opt \<noteq> CHR ''a'' \<and> fst opt \<noteq> CHR ''b''"
      by (simp add: without_selection_def)
    from getopt_case_selection [OF s1 True]
    have "getopt_loop E (without_selection opts) st =
          getopt_loop E (without_selection opts)
            (st1\<lparr>prf_algo := prf_algo st, cipher_chain := cipher_chain st\<rparr>)"
      by simp
    also have "\<dots> = Inr (st'\<lparr>prf_algo := prf_algo st, cipher_chain := cipher_chain st\<rparr>)"
      by (simp add: getopt_loop_frame [OF n] ih)
    finally show ?thesis by (simp add: w)
  next
    case False
    then have w: "without_selection (opt # opts) = opt # without_selection opts"
      by (simp add: without_selection_def)
    from False getopt_case_other [OF s1] ih s1 show ?thesis
      by (simp add: w)
  qed
qed

lemma dispatch_selection:
  "calls (dispatch E st) = [c] \<Longrightarrow>
     is_create c = (create_vol st \<noteq> 0) \<and>
     call_prf c = (if create_vol st \<noteq> 0 then prf_algo st else None) \<and>
     call_cipher_chain c = (if create_vol st \<noteq> 0 then cipher_chain st else None)"
  by (auto simp: dispatch_def Let_def split: if_splits)

lemma dispatch_without_selection:
  "create_vol st = 0 \<Longrightarrow> dispatch E (st\<lparr>prf_algo := x, cipher_chain := y\<rparr>) = dispatch E st"
  by (simp add: dispatch_def)

lemma invalid_args_without_selection:
  "invalid_args (st\<lparr>prf_algo := x, cipher_chain := y\<rparr>) = invalid_args st"
  by (simp add: invalid_args_def)

subsection \<open>The retry loop and the write ceiling\<close>

lemma probe_retry_bound: "fst (probe_retry probe r k) \<le> k + r"
proof (induction r arbitrary: k)
  case 0
  show ?case by simp
next
  case (Suc r)
  from Suc [of "Suc k"] show ?case by (simp split: option.splits)
qed

lemma probe_retry_all_fail:
  "(\<And>j. probe j = None) \<Longrightarrow> probe_retry probe r k = (k + r, Inl AuthenticationFailed)"
  by (induction r arbitrary: k) simp_all

lemma probe_retry_error:
  "snd (probe_retry probe r k) = Inl e \<Longrightarrow> e = AuthenticationFailed"
  by (induction r arbitrary: k) (auto split: option.splits)

lemma dispatch_retries:
  "calls (dispatch E st) = [c] \<Longrightarrow>
     call_interactive c = 1 \<and> (\<not> is_create c \<longrightarrow> call_retries c = Some (DEFAULT_RETRIES E))"
  by (auto simp: dispatch_def Let_def split: if_splits)

lemma mapping_write_ceiling:
  "mapping_write m off v = Inr m' \<Longrightarrow> write_ceiling m' = write_ceiling m"
  by (auto simp: mapping_write_def split: option.splits if_splits)

lemma mapping_write_above:
  "mapping_write m off v = Inr m' \<Longrightarrow> write_ceiling m = Some H \<Longrightarrow> H \<le> x \<Longrightarrow>
     content m' x = content m x"
  by (auto simp: mapping_write_def split: if_splits)

lemma mapping_writes_above:
  "write_ceiling m = Some H \<Longrightarrow> H \<le> x \<Longrightarrow> content (mapping_writes m ws) x = content m x"
proof (induction ws arbitrary: m)
  case Nil
  then show ?case by simp
next
  case (Cons w ws)
  show ?case
  proof (cases "mapping_write m (fst w) (snd w)")
    case (Inl e)
    with Cons show ?thesis by simp
  next
    case (Inr m')
    from mapping_write_ceiling [OF Inr] Cons.prems(1) have "write_ceiling m' = Some H" by simp
    from Cons.IH [OF this Cons.prems(2)] mapping_write_above [OF Inr Cons.prems]
    show ?thesis by (simp add: Inr)
  qed
qed

section \<open>One engine operation per validated invocation\<close>

text \<open>
  Claim C3. For every invocation whose command-line arguments pass validation, exactly one
  of the three engine operations (create_volume, info_volume, map_volume) is invoked, and
  the value that main returns is the result code of that one operation.
\<close>

theorem main_invokes_one_engine_operation:
  assumes "validated E opts"
  shows "\<exists>c. calls (main E opts) = [c] \<and> status (main E opts) = Return (engine E c)"
  using assms
  by (auto simp: validated_def main_def dispatch_def invalid_args_def Let_def split: sum.splits)

theorem main_invokes_one_engine_operation_witness:
  "validated example_env example_map_opts \<and>
   calls (main example_env example_map_opts) = [example_map_call] \<and>
   status (main example_env example_map_opts) = Return (engine example_env example_map_call)"
proof -
  have h: "validated example_env example_map_opts"
    by (simp add: validated_def example_map_loop invalid_args_def)
  from main_invokes_one_engine_operation [OF h] obtain c where
    "calls (main example_env example_map_opts) = [c]" and
    "status (main example_env example_map_opts) = Return (engine example_env c)"
    by blast
  with h show ?thesis by (simp add: example_map_run)
qed

section \<open>The state in which the engine is called\<close>

text \<open>
  Claim C4. Whenever main invokes an engine operation, the device path is not null,
  exactly one of the create, info and map modes is selected, the hidden-volume flag is set
  only in create mode, hidden key files were given only with protect-hidden or create
  mode, the system-encryption flag comes with a system device path that is not null, and
  map mode comes with a mapping name that is not null.
\<close>

theorem engine_call_invariant:
  assumes "c \<in> set (calls (main E opts))"
  shows "\<exists>st. getopt_loop E opts (init_vars E) = Inr st \<and> main E opts = dispatch E st \<and>
           dev st \<noteq> None \<and>
           modes_selected st = 1 \<and>
           (contain_hidden st \<noteq> 0 \<longrightarrow> create_vol st \<noteq> 0) \<and>
           (n_hkeyfiles st > 0 \<longrightarrow> protect_hidden st \<noteq> 0 \<or> create_vol st \<noteq> 0) \<and>
           (sflag st \<noteq> 0 \<longrightarrow> sys_dev st \<noteq> None) \<and>
           (map_vol st \<noteq> 0 \<longrightarrow> map_name st \<noteq> None)"
proof -
  from main_calls [OF assms] obtain st where
    l: "getopt_loop E opts (init_vars E) = Inr st" and v: "\<not> invalid_args st" and
    m: "main E opts = dispatch E st"
    by blast
  from v have "dev st \<noteq> None \<and> modes_selected st = 1 \<and>
           (contain_hidden st \<noteq> 0 \<longrightarrow> create_vol st \<noteq> 0) \<and>
           (n_hkeyfiles st > 0 \<longrightarrow> protect_hidden st \<noteq> 0 \<or> create_vol st \<noteq> 0) \<and>
           (sflag st \<noteq> 0 \<longrightarrow> sys_dev st \<noteq> None) \<and>
           (map_vol st \<noteq> 0 \<longrightarrow> map_name st \<noteq> None)"
    by (auto simp: invalid_args_def modes_selected_def)
  with l m show ?thesis by (intro exI [of _ st]) simp
qed

theorem engine_call_invariant_witness:
  "example_map_call \<in> set (calls (main example_env example_map_opts)) \<and>
   (\<exists>st. getopt_loop example_env example_map_opts (init_vars example_env) = Inr st \<and>
           main example_env example_map_opts = dispatch example_env st \<and>
           dev st = Some ''/dev/da0s1'' \<and>
           modes_selected st = 1 \<and> map_vol st = 1 \<and> contain_hidden st = 0 \<and>
           n_hkeyfiles st = 1 \<and> protect_hidden st = 1 \<and>
           sflag st = 1 \<and> sys_dev st = Some ''/dev/da0'' \<and>
           map_name st = Some ''vol'')"
proof -
  have h: "example_map_call \<in> set (calls (main example_env example_map_opts))"
    by (simp add: example_map_run)
  from engine_call_invariant [OF h] obtain st where
    l: "getopt_loop example_env example_map_opts (init_vars example_env) = Inr st" and
    m: "main example_env example_map_opts = dispatch example_env st" and
    i: "modes_selected st = 1"
    by blast
  from l have "st = \<lparr>dev = Some ''/dev/da0s1'', sys_dev = Some ''/dev/da0'', map_name = Some ''vol'',
      keyfiles = [Some ''k1'', Some ''k2'', None, None],
      h_keyfiles = [Some ''h1'', None, None, None],
      nkeyfiles = 2, n_hkeyfiles = 1,
      sflag = 1, info_vol = 0, map_vol = 1, protect_hidden = 1,
      create_vol = 0, contain_hidden = 0,
      prf_algo = None, cipher_chain = None\<rparr>"
    by (simp add: example_map_loop)
  then have "dev st = Some ''/dev/da0s1'' \<and> map_vol st = 1 \<and> contain_hidden st = 0 \<and>
           n_hkeyfiles st = 1 \<and> protect_hidden st = 1 \<and>
           sflag st = 1 \<and> sys_dev st = Some ''/dev/da0'' \<and> map_name st = Some ''vol''"
    by simp
  with h l m i show ?thesis by (intro conjI exI [of _ st]) simp_all
qed

section \<open>The key files passed to the engine\<close>

text \<open>
  The arrays passed to the engine hold what \<^verbatim>\<open>getopt_long\<close> returned: the count is
  the number of results \<^verbatim>\<open>'k'\<close> and cell i-1 is the \<^verbatim>\<open>optarg\<close> of the i-th of
  them, and likewise for \<^verbatim>\<open>'f'\<close> and the hidden key files. This holds for every run
  that reaches the engine.
\<close>

lemma keyfiles_in_command_line_order:
  assumes "c \<in> set (calls (main E opts))"
  shows "snd (call_keyfiles c) = length (optargs_of (CHR ''k'') opts) \<and>
         (\<forall>i<length (optargs_of (CHR ''k'') opts).
            fst (call_keyfiles c) ! i = optargs_of (CHR ''k'') opts ! i) \<and>
         snd (call_h_keyfiles c) = length (optargs_of (CHR ''f'') opts) \<and>
         (\<forall>i<length (optargs_of (CHR ''f'') opts).
            fst (call_h_keyfiles c) ! i = optargs_of (CHR ''f'') opts ! i)"
proof -
  from main_calls [OF assms] obtain st where
    l: "getopt_loop E opts (init_vars E) = Inr st" and d: "calls (dispatch E st) = [c]"
    by blast
  from getopt_loop_keyfiles [OF l init_vars_bounds(1)]
  have k: "take (nkeyfiles st) (keyfiles st) = optargs_of (CHR ''k'') opts"
    and kb: "nkeyfiles st \<le> length (keyfiles st)"
    by (simp_all add: init_vars_def)
  from getopt_loop_h_keyfiles [OF l init_vars_bounds(2)]
  have h: "take (n_hkeyfiles st) (h_keyfiles st) = optargs_of (CHR ''f'') opts"
    and hb: "n_hkeyfiles st \<le> length (h_keyfiles st)"
    by (simp_all add: init_vars_def)
  from take_eq_nth [OF k kb] take_eq_nth [OF h hb] dispatch_keyfiles [OF d]
  show ?thesis by simp
qed

text \<open>
  Claim C5 says that the i-th -k/--keyfile option is stored at index i-1 of the key-file
  array passed to the engine, with the count of the -k options, and that the same holds
  for -f/--keyfile-hidden and the array of hidden key files. The code does not do this for
  the short option -f: the option string has no colon after \<^verbatim>\<open>f\<close>, although the table
  of long options gives \<^verbatim>\<open>keyfile-hidden\<close> a required argument. So
  \<^verbatim>\<open>getopt_long\<close> returns \<^verbatim>\<open>'f'\<close> with \<^verbatim>\<open>optarg\<close> \<^verbatim>\<open>NULL\<close>, whatever
  follows the letter, and \<^verbatim>\<open>main\<close> stores \<^verbatim>\<open>NULL\<close>: for
  \<^verbatim>\<open>tc-play -i -d /dev/da0s1 -e -f h1\<close> the engine is given one hidden key file, a
  null pointer, where the long option hands over \<^verbatim>\<open>h1\<close>.
\<close>

theorem short_f_option_loses_its_key_file:
  "short_option optstring (CHR ''f'') = Some no_argument \<and>
   long_option longopts ''keyfile-hidden'' = Some (required_argument, CHR ''f'') \<and>
   getopt_cluster (CHR ''f'' # cs) rest = (CHR ''f'', None) # getopt_cluster cs rest \<and>
   getopt_long example_short_f_argv =
     [(CHR ''i'', None), (CHR ''d'', Some ''/dev/da0s1''), (CHR ''e'', None), (CHR ''f'', None)] \<and>
   calls (main example_env (getopt_long example_short_f_argv)) =
     [Info_volume (Some ''/dev/da0s1'') 0 None 1 [None, None, None, None] 0
        [None, None, None, None] 1 None None 1 3] \<and>
   calls (main example_env (getopt_long example_long_f_argv)) =
     [Info_volume (Some ''/dev/da0s1'') 0 None 1 [None, None, None, None] 0
        [Some ''h1'', None, None, None] 1 None None 1 3]"
proof -
  have o: "short_option optstring (CHR ''f'') = Some no_argument"
    by code_simp
  have "long_option longopts ''keyfile-hidden'' = Some (required_argument, CHR ''f'')"
    by code_simp
  moreover
  from o have "getopt_cluster (CHR ''f'' # cs) rest = (CHR ''f'', None) # getopt_cluster cs rest"
    by simp
  moreover
  have "getopt_long example_short_f_argv =
     [(CHR ''i'', None), (CHR ''d'', Some ''/dev/da0s1''), (CHR ''e'', None), (CHR ''f'', None)]"
    by code_simp
  moreover
  have "calls (main example_env (getopt_long example_short_f_argv)) =
     [Info_volume (Some ''/dev/da0s1'') 0 None 1 [None, None, None, None] 0
        [None, None, None, None] 1 None None 1 3]"
    by code_simp
  moreover
  have "calls (main example_env (getopt_long example_long_f_argv)) =
     [Info_volume (Some ''/dev/da0s1'') 0 None 1 [None, None, None, None] 0
        [Some ''h1'', None, None, None] 1 None None 1 3]"
    by code_simp
  ultimately show ?thesis using o by simp
qed

section \<open>The PRF and cipher-chain selections\<close>

text \<open>
  Claim C6, as amended. For every invocation that reaches the engine: without -a the
  engine is handed no PRF selection, and without -b no cipher chain; every -a
  (respectively -b) argument was accepted by check_prf_algo (respectively
  check_cipher_chain), and create_volume receives exactly the registry entry that the
  lookup returned. info_volume and map_volume have no PRF or cipher-chain parameter:
  an info or map invocation makes the same engine call as the command line without its
  -a and -b options.
\<close>

theorem selection_passed_to_create_volume:
  assumes "c \<in> set (calls (main E opts))"
  shows "(optargs_of (CHR ''a'') opts = [] \<longrightarrow> call_prf c = None) \<and>
         (optargs_of (CHR ''b'') opts = [] \<longrightarrow> call_cipher_chain c = None) \<and>
         (\<forall>n\<in>set (optargs_of (CHR ''a'') opts).
            check_prf_algo E n \<noteq> None \<and> (is_create c \<longrightarrow> call_prf c = check_prf_algo E n)) \<and>
         (\<forall>n\<in>set (optargs_of (CHR ''b'') opts).
            check_cipher_chain E n \<noteq> None \<and>
            (is_create c \<longrightarrow> call_cipher_chain c = check_cipher_chain E n)) \<and>
         (\<not> is_create c \<longrightarrow>
            call_prf c = None \<and> call_cipher_chain c = None \<and>
            calls (main E (without_selection opts)) = [c])"
proof -
  from main_calls [OF assms] obtain st where
    l: "getopt_loop E opts (init_vars E) = Inr st" and v: "\<not> invalid_args st" and
    d: "calls (dispatch E st) = [c]"
    by blast
  note s = dispatch_selection [OF d]
  from getopt_loop_prf [OF l] s
  have p: "(optargs_of (CHR ''a'') opts = [] \<longrightarrow> call_prf c = None) \<and>
         (\<forall>n\<in>set (optargs_of (CHR ''a'') opts).
            check_prf_algo E n \<noteq> None \<and> (is_create c \<longrightarrow> call_prf c = check_prf_algo E n))"
    by (cases "optargs_of (CHR ''a'') opts") (auto simp: init_vars_def split: list.splits)
  from getopt_loop_cipher [OF l] s
  have q: "(optargs_of (CHR ''b'') opts = [] \<longrightarrow> call_cipher_chain c = None) \<and>
         (\<forall>n\<in>set (optargs_of (CHR ''b'') opts).
            check_cipher_chain E n \<noteq> None \<and>
            (is_create c \<longrightarrow> call_cipher_chain c = check_cipher_chain E n))"
    by (cases "optargs_of (CHR ''b'') opts") (auto simp: init_vars_def split: list.splits)
  have r: "calls (main E (without_selection opts)) = [c]" if "\<not> is_create c"
  proof -
    from that s have c0: "create_vol st = 0" by simp
    from getopt_loop_without_selection [OF l]
    have "main E (without_selection opts) =
            dispatch E (st\<lparr>prf_algo := prf_algo (init_vars E),
                           cipher_chain := cipher_chain (init_vars E)\<rparr>)"
      using v by (simp add: main_def invalid_args_without_selection)
    with c0 d show ?thesis by (simp add: dispatch_without_selection)
  qed
  from p q r s show ?thesis by simp
qed

theorem selection_passed_to_create_volume_witness:
  "example_create_call \<in> set (calls (main example_env example_create_opts)) \<and>
   optargs_of (CHR ''a'') example_create_opts = [Some ''SHA512''] \<and>
   optargs_of (CHR ''b'') example_create_opts = [Some ''AES-256-XTS''] \<and>
   is_create example_create_call \<and>
   call_prf example_create_call = check_prf_algo example_env (Some ''SHA512'') \<and>
   call_cipher_chain example_create_call = check_cipher_chain example_env (Some ''AES-256-XTS'') \<and>
   check_prf_algo example_env (Some ''SHA512'') = Some 1 \<and>
   check_cipher_chain example_env (Some ''AES-256-XTS'') = Some 0"
proof -
  have h: "example_create_call \<in> set (calls (main example_env example_create_opts))"
    by (simp add: example_create_run)
  have a: "optargs_of (CHR ''a'') example_create_opts = [Some ''SHA512'']"
    and b: "optargs_of (CHR ''b'') example_create_opts = [Some ''AES-256-XTS'']"
    by (simp_all add: optargs_of_def example_create_opts_def)
  have i: "is_create example_create_call"
    by (simp add: example_create_call_def)
  from selection_passed_to_create_volume [OF h] i
  have "call_prf example_create_call = check_prf_algo example_env (Some ''SHA512'') \<and>
        call_cipher_chain example_create_call =
          check_cipher_chain example_env (Some ''AES-256-XTS'')"
    by (simp add: a b)
  moreover have "check_prf_algo example_env (Some ''SHA512'') = Some 1 \<and>
        check_cipher_chain example_env (Some ''AES-256-XTS'') = Some 0"
    by (simp add: example_env_def)
  ultimately show ?thesis using h a b i by simp
qed

text \<open>
  The claim as first stated fails for info and map: with -a SHA512 accepted by the lookup,
  \<^verbatim>\<open>tc-play -i -d /dev/da0s1 -a SHA512\<close> calls info_volume, which is handed no
  registry entry; the call is the one made without -a.
\<close>

theorem info_volume_receives_no_prf:
  "example_info_call \<in> set (calls (main example_env example_info_opts)) \<and>
   optargs_of (CHR ''a'') example_info_opts = [Some ''SHA512''] \<and>
   check_prf_algo example_env (Some ''SHA512'') = Some 1 \<and>
   call_prf example_info_call \<noteq> Some 1 \<and>
   calls (main example_env [(CHR ''i'', None), (CHR ''d'', Some ''/dev/da0s1'')]) =
     calls (main example_env example_info_opts)"
proof -
  have "example_info_call \<in> set (calls (main example_env example_info_opts))"
    by (simp add: example_info_run)
  moreover have "optargs_of (CHR ''a'') example_info_opts = [Some ''SHA512'']"
    by (simp add: optargs_of_def example_info_opts_def)
  moreover have "check_prf_algo example_env (Some ''SHA512'') = Some 1"
    by (simp add: example_env_def)
  moreover have "call_prf example_info_call \<noteq> Some 1"
    by (simp add: example_info_call_def)
  moreover have "calls (main example_env [(CHR ''i'', None), (CHR ''d'', Some ''/dev/da0s1'')]) =
     [example_info_call]"
    by code_simp
  ultimately show ?thesis by (simp add: example_info_run)
qed

section \<open>The retry bound of info and map\<close>

text \<open>
  Claim C7. Every info or map invocation that reaches the engine passes interactive = 1
  and the retry bound DEFAULT_RETRIES; so the interactive probe prompts at most
  DEFAULT_RETRIES times, and when every attempt fails it ends after DEFAULT_RETRIES prompts
  with AuthenticationFailed.
\<close>

theorem info_and_map_retries_bounded:
  assumes "c \<in> set (calls (main E opts))" and "\<not> is_create c"
  shows "call_interactive c = 1 \<and> call_retries c = Some (DEFAULT_RETRIES E) \<and>
         (\<forall>probe :: nat \<Rightarrow> 'v option.
            fst (interactive_probe (DEFAULT_RETRIES E) probe) \<le> nat (DEFAULT_RETRIES E) \<and>
            ((\<forall>k. probe k = None) \<longrightarrow>
               interactive_probe (DEFAULT_RETRIES E) probe =
                 (nat (DEFAULT_RETRIES E), Inl AuthenticationFailed)))"
proof -
  from main_calls [OF assms(1)] obtain st where d: "calls (dispatch E st) = [c]"
    by blast
  from dispatch_retries [OF d] assms(2)
  have "call_interactive c = 1 \<and> call_retries c = Some (DEFAULT_RETRIES E)" by simp
  moreover have "fst (interactive_probe (DEFAULT_RETRIES E) probe) \<le> nat (DEFAULT_RETRIES E)"
    for probe :: "nat \<Rightarrow> 'v option"
    using probe_retry_bound [of probe "nat (DEFAULT_RETRIES E)" 0]
    by (simp add: interactive_probe_def)
  moreover have "interactive_probe (DEFAULT_RETRIES E) probe =
                 (nat (DEFAULT_RETRIES E), Inl AuthenticationFailed)"
    if "\<forall>k. probe k = None" for probe :: "nat \<Rightarrow> 'v option"
    using that probe_retry_all_fail [of probe "nat (DEFAULT_RETRIES E)" 0]
    by (simp add: interactive_probe_def)
  ultimately show ?thesis by blast
qed

theorem info_and_map_retries_bounded_witness:
  "example_map_call \<in> set (calls (main example_env example_map_opts)) \<and>
   \<not> is_create example_map_call \<and>
   call_interactive example_map_call = 1 \<and>
   call_retries example_map_call = Some 3 \<and>
   interactive_probe 3 (\<lambda>k. None :: unit option) = (3, Inl AuthenticationFailed)"
proof -
  have h: "example_map_call \<in> set (calls (main example_env example_map_opts))"
    by (simp add: example_map_run)
  have i: "\<not> is_create example_map_call"
    by (simp add: example_map_call_def)
  have r: "DEFAULT_RETRIES example_env = 3"
    by (simp add: example_env_def)
  from info_and_map_retries_bounded [OF h i, where ?'v = unit]
  have "call_interactive example_map_call = 1 \<and> call_retries example_map_call = Some 3 \<and>
        interactive_probe 3 (\<lambda>k. None :: unit option) = (3, Inl AuthenticationFailed)"
    by (simp add: r)
  with h i show ?thesis by simp
qed

section \<open>The signal handler\<close>

text \<open>
  Claim C8. The signal handler calls the registered progress-summary function exactly once
  if and only if the signal is SIGUSR1 or SIGINFO and a summary function is registered
  (summary_fn is not null); for any other signal number, or with no summary function
  registered, it does nothing.
\<close>

theorem sig_handler_calls_summary_fn:
  "(length (sig_handler E summary_fn sig) = 1 \<longleftrightarrow>
      (sig = SIGUSR1 E \<or> sig = SIGINFO E) \<and> summary_fn \<noteq> None) \<and>
   (sig_handler E summary_fn sig = [] \<longleftrightarrow>
      \<not> ((sig = SIGUSR1 E \<or> sig = SIGINFO E) \<and> summary_fn \<noteq> None)) \<and>
   (\<forall>f. (sig = SIGUSR1 E \<or> sig = SIGINFO E) \<and> summary_fn = Some f \<longrightarrow>
        sig_handler E summary_fn sig = [f]) \<and>
   (sig \<in> set (installed_signals E) \<longleftrightarrow> sig = SIGUSR1 E \<or> sig = SIGINFO E)"
  by (auto simp: sig_handler_def installed_signals_def)

theorem sig_handler_calls_summary_fn_witness:
  "sig_handler example_env (Some ''summary'') 30 = [''summary''] \<and>
   sig_handler example_env (Some ''summary'') 29 = [''summary''] \<and>
   sig_handler example_env (Some ''summary'') 15 = [] \<and>
   sig_handler example_env (None :: string option) 30 = []"
  using sig_handler_calls_summary_fn [of example_env "Some ''summary''" 30]
    sig_handler_calls_summary_fn [of example_env "Some ''summary''" 29]
    sig_handler_calls_summary_fn [of example_env "Some ''summary''" 15]
    sig_handler_calls_summary_fn [of example_env "None :: string option" 30]
  by (simp add: example_env_def)

section \<open>Key-file options beyond MAX_KEYFILES\<close>

text \<open>
  Claim C9 says that the stores \<^verbatim>\<open>keyfiles[nkeyfiles++]\<close> and
  \<^verbatim>\<open>h_keyfiles[n_hkeyfiles++]\<close> always stay within the MAX_KEYFILES cells of the
  arrays. The loop has no bound check: a command line that begins with MAX_KEYFILES + 1
  options -k (or -f) stores outside the array, whatever follows.
\<close>

theorem keyfile_store_out_of_bounds:
  "status (main E (replicate (Suc (MAX_KEYFILES E)) (CHR ''k'', v) @ rest)) = Undefined_behaviour \<and>
   status (main E (replicate (Suc (MAX_KEYFILES E)) (CHR ''f'', v) @ rest)) = Undefined_behaviour"
proof -
  have "getopt_loop E (replicate (Suc (MAX_KEYFILES E)) (CHR ''k'', v) @ rest) (init_vars E)
          = Inl Undefined_behaviour"
    by (rule overflow_loop) (simp_all add: init_vars_def)
  moreover
  have "getopt_loop E (replicate (Suc (MAX_KEYFILES E)) (CHR ''f'', v) @ rest) (init_vars E)
          = Inl Undefined_behaviour"
    by (rule overflow_loop_hidden) (simp_all add: init_vars_def)
  ultimately show ?thesis by (simp add: main_def)
qed

section \<open>A repeated -a or -b\<close>

text \<open>
  Claim C10, as amended. For every invocation in which -a/--pbkdf-prf or -b/--cipher
  appears more than once, no engine operation is invoked and the process ends in the
  option loop, no later than at the repeated option: through usage(), unless an option
  processed before the repeated one already ended the process, with exit(0) (-v, or a
  "help" argument of -a or -b) or by leaving defined behaviour (a null argument of -a or
  -b, or more than MAX_KEYFILES options -k or -f). The options after the repeated one
  change nothing.
\<close>

theorem repeated_selection_never_reaches_engine:
  assumes "2 \<le> length (optargs_of (CHR ''a'') opts) \<or> 2 \<le> length (optargs_of (CHR ''b'') opts)"
  shows "calls (main E opts) = [] \<and>
         (\<exists>us ch n ys. opts = us @ (ch, n) # ys \<and> repeats_selection ch us) \<and>
         (\<forall>us ch n ys. opts = us @ (ch, n) # ys \<and> repeats_selection ch us \<longrightarrow>
            status (main E opts) =
              (case getopt_loop E us (init_vars E) of Inl t \<Rightarrow> t | Inr st \<Rightarrow> Usage) \<and>
            (status (main E opts) = Usage \<or>
             status (main E opts) = Exit 0 \<and>
               (CHR ''v'' \<in> fst ` set us \<or>
                Some ''help'' \<in> set (optargs_of (CHR ''a'') us) \<or>
                Some ''help'' \<in> set (optargs_of (CHR ''b'') us)) \<or>
             status (main E opts) = Undefined_behaviour \<and>
               (None \<in> set (optargs_of (CHR ''a'') us) \<or>
                None \<in> set (optargs_of (CHR ''b'') us) \<or>
                MAX_KEYFILES E < length (optargs_of (CHR ''k'') us) \<or>
                MAX_KEYFILES E < length (optargs_of (CHR ''f'') us))))"
proof -
  from assms obtain ch where c: "ch = CHR ''a'' \<or> ch = CHR ''b''"
    and l: "2 \<le> length (optargs_of ch opts)"
    by blast
  from repeated_option_split [OF l] obtain us n ys where
    o: "opts = us @ (ch, n) # ys" and u: "length (optargs_of ch us) = 1"
    by blast
  from u have "optargs_of ch us \<noteq> []" by auto
  with c have r: "repeats_selection ch us"
    by (auto simp: repeats_selection_def)
  from repeated_selection_at [OF r, of E n ys] o have "calls (main E opts) = []" by simp
  moreover from o r have "\<exists>us ch n ys. opts = us @ (ch, n) # ys \<and> repeats_selection ch us"
    by blast
  ultimately show ?thesis using repeated_selection_at by blast
qed

theorem repeated_selection_never_reaches_engine_witness:
  "2 \<le> length (optargs_of (CHR ''a'') example_twice_opts) \<and>
   example_twice_opts =
     [(CHR ''a'', Some ''SHA512'')] @ (CHR ''a'', Some ''RIPEMD160'') # [(CHR ''v'', None)] \<and>
   repeats_selection (CHR ''a'') [(CHR ''a'', Some ''SHA512'')] \<and>
   calls (main example_env example_twice_opts) = [] \<and>
   status (main example_env example_twice_opts) = Usage"
proof -
  have h: "2 \<le> length (optargs_of (CHR ''a'') example_twice_opts)"
    by (simp add: optargs_of_def example_twice_opts_def)
  have e: "example_twice_opts =
     [(CHR ''a'', Some ''SHA512'')] @ (CHR ''a'', Some ''RIPEMD160'') # [(CHR ''v'', None)]"
    by (simp add: example_twice_opts_def)
  have r: "repeats_selection (CHR ''a'') [(CHR ''a'', Some ''SHA512'')]"
    by (simp add: repeats_selection_def optargs_of_def)
  have l: "getopt_loop example_env [(CHR ''a'', Some ''SHA512'')] (init_vars example_env) =
             Inr ((init_vars example_env)\<lparr>prf_algo := Some 1\<rparr>)"
    by (simp add: getopt_case_def example_env_def init_vars_def)
  from h have "2 \<le> length (optargs_of (CHR ''a'') example_twice_opts) \<or>
               2 \<le> length (optargs_of (CHR ''b'') example_twice_opts)"
    by simp
  note t = repeated_selection_never_reaches_engine [OF this, of example_env]
  from t have c: "calls (main example_env example_twice_opts) = []"
    by blast
  from t e r have "status (main example_env example_twice_opts) =
      (case getopt_loop example_env [(CHR ''a'', Some ''SHA512'')] (init_vars example_env) of
         Inl t \<Rightarrow> t | Inr st \<Rightarrow> Usage)"
    by blast
  then have "status (main example_env example_twice_opts) = Usage"
    by (simp add: l del: getopt_loop.simps)
  with h e r c show ?thesis by simp
qed

text \<open>
  The claim as first stated fails: \<^verbatim>\<open>tc-play -v -a SHA512 -a SHA512\<close> has -a
  twice and ends with exit(0) in the case of -v, which comes first, not through usage().
\<close>

theorem repeated_prf_after_version_exits_0:
  "2 \<le> length (optargs_of (CHR ''a'') example_version_opts) \<and>
   status (main example_env example_version_opts) = Exit 0 \<and>
   status (main example_env example_version_opts) \<noteq> Usage"
proof -
  have "2 \<le> length (optargs_of (CHR ''a'') example_version_opts)"
    by (simp add: optargs_of_def example_version_opts_def)
  moreover have "status (main example_env example_version_opts) = Exit 0"
    by (simp add: example_version_run)
  ultimately show ?thesis by simp
qed

section \<open>Hidden-volume protection\<close>

text \<open>
  Claim C1. Once a hidden-volume header has been decrypted, with protected offset H (the
  start of its encrypted area), every write to the outer volume's mapping at a byte offset
  at or beyond H is rejected with an I/O error and not applied, so that no sequence of
  writes changes the content at or beyond H, and every write strictly below H succeeds
  with exactly the data given; when no hidden-volume header decrypts, protection is a
  no-op and every write succeeds.
\<close>

theorem hidden_volume_write_protection:
  "(\<forall>off v. encrypted_area_start hh \<le> off \<longrightarrow>
       mapping_write (outer_mapping (Some hh) c) off v = Inl IoFailure) \<and>
   (\<forall>off v. off < encrypted_area_start hh \<longrightarrow>
       mapping_write (outer_mapping (Some hh) c) off v =
         Inr (outer_mapping (Some hh) (c(off := v)))) \<and>
   (\<forall>ws off. encrypted_area_start hh \<le> off \<longrightarrow>
       content (mapping_writes (outer_mapping (Some hh) c) ws) off = c off) \<and>
   (\<forall>off v. mapping_write (outer_mapping None c) off v = Inr (outer_mapping None (c(off := v))))"
proof -
  have "content (mapping_writes (outer_mapping (Some hh) c) ws) off = c off"
    if "encrypted_area_start hh \<le> off" for ws off
    using mapping_writes_above [of "outer_mapping (Some hh) c" "encrypted_area_start hh" off ws] that
    by (simp add: outer_mapping_def protected_offset_def)
  then show ?thesis
    by (simp add: mapping_write_def outer_mapping_def protected_offset_def)
qed

theorem hidden_volume_write_protection_witness:
  "mapping_write (outer_mapping (Some \<lparr>encrypted_area_start = 1024, encrypted_area_size = 512\<rparr>)
       (\<lambda>off. 0 :: nat)) 1024 255 = Inl IoFailure \<and>
   mapping_write (outer_mapping (Some \<lparr>encrypted_area_start = 1024, encrypted_area_size = 512\<rparr>)
       (\<lambda>off. 0 :: nat)) 1023 255 =
     Inr (outer_mapping (Some \<lparr>encrypted_area_start = 1024, encrypted_area_size = 512\<rparr>)
       ((\<lambda>off. 0)(1023 := 255))) \<and>
   content (mapping_writes
       (outer_mapping (Some \<lparr>encrypted_area_start = 1024, encrypted_area_size = 512\<rparr>)
          (\<lambda>off. 0 :: nat)) [(1023, 255), (1024, 255), (2000, 255)]) 1024 = 0 \<and>
   mapping_write (outer_mapping None (\<lambda>off. 0 :: nat)) 1024 255 =
     Inr (outer_mapping None ((\<lambda>off. 0)(1024 := 255)))"
proof -
  let ?hh = "\<lparr>encrypted_area_start = 1024, encrypted_area_size = 512\<rparr>"
  note t = hidden_volume_write_protection [of ?hh "\<lambda>off. 0 :: nat"]
  from t have "mapping_write (outer_mapping (Some ?hh) (\<lambda>off. 0 :: nat)) 1024 255 = Inl IoFailure"
    by simp
  moreover
  from t have "mapping_write (outer_mapping (Some ?hh) (\<lambda>off. 0 :: nat)) 1023 255 =
     Inr (outer_mapping (Some ?hh) ((\<lambda>off. 0)(1023 := 255)))"
    by simp
  moreover
  from t have "content (mapping_writes (outer_mapping (Some ?hh) (\<lambda>off. 0 :: nat))
       [(1023, 255), (1024, 255), (2000, 255)]) 1024 = 0"
    by (simp del: mapping_writes.simps)
  moreover
  from t have "mapping_write (outer_mapping None (\<lambda>off. 0 :: nat)) 1024 255 =
     Inr (outer_mapping None ((\<lambda>off. 0)(1024 := 255)))"
    by simp
  ultimately show ?thesis by (simp del: mapping_writes.simps)
qed

end
